theory Spec2Isabelle
  imports Complex_Main "HOL-Library.Sublist"
begin

section \<open>The Go library functions that the sampler calls\<close>

text \<open>
  Go strings and byte slices are sequences of bytes: \<^typ>\<open>string\<close> (a list of
  8-bit characters). The functions of this section are not code of the exporter; they are
  the documented behaviour of the Go standard library and of the Prometheus client that
  \<open>scrapeSmi\<close> relies on.
\<close>

text \<open>
  \<open>strings.Index(s, sep)\<close>: the byte index of the first occurrence of \<open>sep\<close> in
  \<open>s\<close>; Go's \<open>-1\<close> is \<open>None\<close>.
\<close>

fun Index :: "string \<Rightarrow> string \<Rightarrow> nat option" where
  "Index [] sep = (if sep = [] then Some 0 else None)"
| "Index (c # s) sep =
     (if prefix sep (c # s) then Some 0 else map_option Suc (Index s sep))"

text \<open>
  \<open>strings.Split(s, sep)\<close> (\<open>genSplit\<close> with no limit): cut at the first
  occurrence of \<open>sep\<close>, keep the part before it, go on behind the separator; the rest
  without an occurrence is the last field. With an empty separator Go explodes \<open>s\<close>
  into its UTF-8 sequences; the model explodes into bytes there (the exporter's separator is
  never empty).
\<close>

function Split :: "string \<Rightarrow> string \<Rightarrow> string list" where
  "Split s sep =
     (if sep = [] then map (\<lambda>c. [c]) s
      else (case Index s sep of
              None \<Rightarrow> [s]
            | Some m \<Rightarrow> take m s # Split (drop (m + length sep) s) sep))"
  by pat_completeness auto
termination
proof (relation "measure (\<lambda>(s, sep). length s)")
  show "wf (measure (\<lambda>(s, sep). length s))" by simp
next
  fix s sep :: string and m :: nat
  assume sep: "sep \<noteq> []" and idx: "Index s sep = Some m"
  have bound: "m + length sep \<le> length t" if "Index t sep = Some m" for t m
    using that
  proof (induction t arbitrary: m)
    case Nil
    then show ?case by (simp split: if_splits)
  next
    case (Cons c t)
    show ?case
    proof (cases "prefix sep (c # t)")
      case True
      with Cons.prems have "m = 0" by simp
      with prefix_length_le [OF True] show ?thesis by simp
    next
      case False
      with Cons.prems obtain m' where "Index t sep = Some m'" "m = Suc m'" by auto
      with Cons.IH show ?thesis by fastforce
    qed
  qed
  from bound [OF idx] sep have "length (drop (m + length sep) s) < length s"
    by (cases sep) auto
  then show "((drop (m + length sep) s, sep), (s, sep)) \<in> measure (\<lambda>(s, sep). length s)"
    by simp
qed

declare Split.simps [simp del]

text \<open>\<open>strings.Join(a, sep)\<close>.\<close>

fun Join :: "string list \<Rightarrow> string \<Rightarrow> string" where
  "Join [] sep = []"
| "Join [a] sep = a"
| "Join (a # b # bs) sep = a @ sep @ Join (b # bs) sep"

text \<open>
  \<open>bufio.Reader.ReadBytes(delim)\<close> on the bytes the subprocess still has to deliver:
  the bytes up to and including the first delimiter with a nil error, or, when the stream
  ends before a delimiter, the bytes read so far with the error (\<open>True\<close>). The third
  component is what stays in the stream.
\<close>

fun ReadBytes :: "char \<Rightarrow> string \<Rightarrow> string \<times> bool \<times> string" where
  "ReadBytes delim [] = ([], True, [])"
| "ReadBytes delim (c # cs) =
     (if c = delim then ([c], False, cs)
      else (case ReadBytes delim cs of (l, err, rest) \<Rightarrow> (c # l, err, rest)))"


text \<open>
  \<open>strconv.ParseFloat(s, 64)\<close> and the conversion \<open>float64(int64)\<close> are taken as
  they come: the type \<open>'f\<close> stands for Go's \<open>float64\<close>, and a failed parse is
  \<open>Inl\<close> of the text of its error. Every theorem below holds for whatever these two
  functions compute.
\<close>

record 'f golib =
  ParseFloat :: "string \<Rightarrow> string + 'f"
  float64 :: "int \<Rightarrow> 'f"

section \<open>The metric definitions\<close>

text \<open>
  \<open>prometheus.GaugeOpts\<close> with the two fields the exporter fills in, and a
  \<open>GaugeVec\<close> as its options and the label names it was created with. The values a
  vector holds live in the registry below (the copies of a \<open>GaugeVec\<close> that
  \<open>range stats\<close> makes share them).
\<close>

record GaugeOpts =
  Name :: string
  Help :: string

record GaugeVec =
  opts :: GaugeOpts
  labelNames :: "string list"

record nvidiaStat =
  name :: string
  metric :: GaugeVec

definition NewGaugeVec :: "GaugeOpts \<Rightarrow> string list \<Rightarrow> GaugeVec" where
  "NewGaugeVec os ls = \<lparr>opts = os, labelNames = ls\<rparr>"

definition stats :: "nvidiaStat list" where
  "stats =
    [\<lparr>name = ''memory.used'',
      metric = NewGaugeVec \<lparr>Name = ''nvidia_memory_used_megabytes'',
        Help = ''Total memory allocated by active contexts''\<rparr> [''gpu'']\<rparr>,
     \<lparr>name = ''memory.total'',
      metric = NewGaugeVec \<lparr>Name = ''nvidia_memory_total_megabytes'',
        Help = ''Total installed GPU memory''\<rparr> [''gpu'']\<rparr>,
     \<lparr>name = ''utilization.gpu'',
      metric = NewGaugeVec \<lparr>Name = ''nvidia_gpu_utilization_percent'',
        Help = ''Percent of time over the past sample period during which one or more kernels was executing on the GPU''\<rparr>
        [''gpu'']\<rparr>,
     \<lparr>name = ''utilization.memory'',
      metric = NewGaugeVec \<lparr>Name = ''nvidia_memory_utilization_percent'',
        Help = ''Percent of time over the past sample period during which global (device) memory was being read or written''\<rparr>
        [''gpu'']\<rparr>,
     \<lparr>name = ''temperature.gpu'',
      metric = NewGaugeVec \<lparr>Name = ''nvidia_temperature_celsius'',
        Help = ''Core GPU temperature''\<rparr> [''gpu'']\<rparr>,
     \<lparr>name = ''power.draw'',
      metric = NewGaugeVec \<lparr>Name = ''nvidia_power_draw_watts'',
        Help = ''The last measured power draw for the entire board''\<rparr> [''gpu'']\<rparr>]"

text \<open>The options of the plain gauge \<open>lastUpdated\<close> that \<open>scrapeSmi\<close> creates.\<close>

definition lastUpdated_opts :: GaugeOpts where
  "lastUpdated_opts = \<lparr>Name = ''nvidia_last_updated_time'',
     Help = ''Last time that we read output from nvidia-smi''\<rparr>"

section \<open>The registry\<close>

text \<open>
  What the process holds in the Prometheus registry: the value of the plain gauge
  \<open>lastUpdated\<close>, the children of the gauge vectors (by the vector's \<open>Name\<close> and
  the label values, in the order of the vector's label names), and the sequence of
  \<open>Set\<close> calls made so far, each with the labels it was given.
\<close>

datatype 'f event =
  LastUpdatedSet 'f
| GaugeSet string "(string \<times> string) list" 'f

record 'f registry =
  lastUpdated :: 'f
  children :: "string \<times> string list \<Rightarrow> 'f option"
  writes :: "'f event list"

definition Gauge_Set :: "'f \<Rightarrow> 'f registry \<Rightarrow> 'f registry" where
  "Gauge_Set v r = r\<lparr>lastUpdated := v, writes := writes r @ [LastUpdatedSet v]\<rparr>"

text \<open>
  \<open>GaugeVec.With(labels)\<close>: the label values in the order of the vector's label names,
  when \<open>labels\<close> has exactly one value for each of them; it panics otherwise
  (\<open>None\<close>). \<open>prometheus.Labels\<close> is a Go map, written here as an association list.
\<close>

definition With :: "GaugeVec \<Rightarrow> (string \<times> string) list \<Rightarrow> string list option" where
  "With vec labels =
     (if length labels = length (labelNames vec)
         \<and> list_all (\<lambda>l. map_of labels l \<noteq> None) (labelNames vec)
      then Some (map (\<lambda>l. the (map_of labels l)) (labelNames vec))
      else None)"

text \<open>\<open>vec.With(labels).Set(v)\<close> on the child for the label values \<open>lvs\<close>.\<close>

definition GaugeVec_Set ::
  "GaugeVec \<Rightarrow> (string \<times> string) list \<Rightarrow> string list \<Rightarrow> 'f \<Rightarrow> 'f registry \<Rightarrow> 'f registry" where
  "GaugeVec_Set vec labels lvs v r =
     r\<lparr>children := (children r)((Name (opts vec), lvs) \<mapsto> v),
       writes := writes r @ [GaugeSet (Name (opts vec)) labels v]\<rparr>"

section \<open>The sampler\<close>

text \<open>
  How the processing of a line ends: the loop goes on with the registry, or
  \<open>log.Fatalf\<close> ends the process with a message, or a run-time panic ends it. The
  registry is the one the process holds at that moment.
\<close>

datatype panic =
  SliceBoundsOutOfRange | IndexOutOfRange | InconsistentLabels | AlreadyRegistered

datatype 'f outcome =
  is_Continue: Continue (registry_of: "'f registry")
| is_Fatal: Fatal (message: string) (registry_of: "'f registry")
| is_Panic: Panic (cause: panic) (registry_of: "'f registry")

text \<open>
  The loop \<open>for i, stat := range stats\<close> of \<open>scrapeSmi\<close>, the same in both source
  files: \<open>data[i+1]\<close> is read (a panic when out of range), parsed (fatal when that
  fails) and written to the gauge of \<open>stat\<close> under the label \<open>gpu\<close>.
\<close>

fun scrapeSmi_stats ::
  "'f golib \<Rightarrow> string list \<Rightarrow> string \<Rightarrow> nat \<Rightarrow> nvidiaStat list \<Rightarrow> 'f registry \<Rightarrow> 'f outcome" where
  "scrapeSmi_stats L data gpu i [] r = Continue r"
| "scrapeSmi_stats L data gpu i (stat # rest) r =
     (if length data \<le> i + 1 then Panic IndexOutOfRange r
      else (case ParseFloat L (data ! (i + 1)) of
              Inl err \<Rightarrow>
                Fatal (''error converting '' @ name stat @ '' value ('' @ data ! (i + 1)
                         @ '') to float: '' @ err) r
            | Inr v \<Rightarrow>
                (case With (metric stat) [(''gpu'', gpu)] of
                   None \<Rightarrow> Panic InconsistentLabels r
                 | Some lvs \<Rightarrow>
                     scrapeSmi_stats L data gpu (i + 1) rest
                       (GaugeVec_Set (metric stat) [(''gpu'', gpu)] lvs v r))))"

text \<open>
  The body of the read loop of \<open>scrapeSmi\<close> in \<open>nvidia_exporter.go\<close>, for a line that
  \<open>ReadBytes\<close> returned with a nil error, read at Unix time \<open>now\<close>.
\<close>

definition scrapeSmi_line :: "'f golib \<Rightarrow> int \<Rightarrow> string \<Rightarrow> 'f registry \<Rightarrow> 'f outcome" where
  "scrapeSmi_line L now line0 r0 =
     (let r = Gauge_Set (float64 L now) r0 in
      if length line0 < 1 then Panic SliceBoundsOutOfRange r
      else
        let line = take (length line0 - 1) line0;
            data = Split line '', ''
        in if length data \<noteq> length stats + 1
           then Fatal (''invalid nvidia-smi output: '' @ line) r
           else if length data \<le> 0 then Panic IndexOutOfRange r
           else scrapeSmi_stats L data (data ! 0) 0 stats r)"

text \<open>
  The same loop body in the second source file (\<open>src/unnamed/part_000\<close>), which has no
  check of the number of fields.
\<close>

definition scrapeSmi_line_part000 ::
  "'f golib \<Rightarrow> int \<Rightarrow> string \<Rightarrow> 'f registry \<Rightarrow> 'f outcome" where
  "scrapeSmi_line_part000 L now line0 r0 =
     (let r = Gauge_Set (float64 L now) r0 in
      if length line0 < 1 then Panic SliceBoundsOutOfRange r
      else
        let line = take (length line0 - 1) line0;
            data = Split line '', ''
        in if length data \<le> 0 then Panic IndexOutOfRange r
           else scrapeSmi_stats L data (data ! 0) 0 stats r)"

text \<open>
  The read loop \<open>for { ... }\<close>: \<open>inp\<close> is what the subprocess writes to its standard
  output before the stream ends, \<open>clock k\<close> the Unix time at which the \<open>k\<close>-th line is
  read, \<open>body\<close> the loop body of one of the two source files. A read error is fatal.
\<close>

function scrapeSmi_loop ::
  "(int \<Rightarrow> string \<Rightarrow> 'f registry \<Rightarrow> 'f outcome) \<Rightarrow> (nat \<Rightarrow> int) \<Rightarrow> nat \<Rightarrow> string
     \<Rightarrow> 'f registry \<Rightarrow> 'f outcome" where
  "scrapeSmi_loop body clock k inp r =
     (case ReadBytes (CHR 0x0A) inp of
        (line, err, rest) \<Rightarrow>
          if err then Fatal ''error reading nvidia-smi output: EOF'' r
          else (case body (clock k) line r of
                  Continue r' \<Rightarrow> scrapeSmi_loop body clock (k + 1) rest r'
                | out \<Rightarrow> out))"
  by pat_completeness auto
termination
proof -
  have shorter: "length rest < length t"
    if "ReadBytes d t = (l, False, rest)" for d t l rest
    using that
    by (induction t arbitrary: l) (auto split: if_splits prod.splits)
  show ?thesis
    by (relation "measure (\<lambda>(body, clock, k, inp, r). length inp)")
       (auto dest: shorter [OF sym])
qed

declare scrapeSmi_loop.simps [simp del]


subsection \<open>Registration\<close>

text \<open>
  What \<open>prometheus.MustRegister\<close> sees of a collector: its name and its label names. It
  panics when a collector of that name is registered already. A plain \<open>Gauge\<close> has no
  labels.
\<close>

type_synonym Desc = "string \<times> string list"

definition Gauge_Desc :: "GaugeOpts \<Rightarrow> Desc" where
  "Gauge_Desc os = (Name os, [])"

definition GaugeVec_Desc :: "GaugeVec \<Rightarrow> Desc" where
  "GaugeVec_Desc vec = (Name (opts vec), labelNames vec)"

definition MustRegister :: "Desc \<Rightarrow> Desc list \<Rightarrow> panic + Desc list" where
  "MustRegister d reg =
     (if fst d \<in> set (map fst reg) then Inl AlreadyRegistered else Inr (reg @ [d]))"

text \<open>The loop \<open>for _, stat := range stats { prometheus.MustRegister(stat.metric) }\<close>.\<close>

fun MustRegister_stats :: "nvidiaStat list \<Rightarrow> Desc list \<Rightarrow> panic + Desc list" where
  "MustRegister_stats [] reg = Inr reg"
| "MustRegister_stats (stat # rest) reg =
     (case MustRegister (GaugeVec_Desc (metric stat)) reg of
        Inl p \<Rightarrow> Inl p
      | Inr reg' \<Rightarrow> MustRegister_stats rest reg')"

text \<open>
  \<open>nvidia_exporter.go\<close>: \<open>scrapeSmi\<close> registers \<open>lastUpdated\<close> and then the vectors
  of \<open>stats\<close>.
\<close>

definition scrapeSmi_register :: "Desc list \<Rightarrow> panic + Desc list" where
  "scrapeSmi_register reg =
     (case MustRegister (Gauge_Desc lastUpdated_opts) reg of
        Inl p \<Rightarrow> Inl p
      | Inr reg' \<Rightarrow> MustRegister_stats stats reg')"

text \<open>
  \<open>src/unnamed/part_000\<close>: \<open>main\<close> registers the vectors of \<open>stats\<close>, and
  \<open>scrapeSmi\<close> then registers \<open>lastUpdated\<close>.
\<close>

definition register_part000 :: "Desc list \<Rightarrow> panic + Desc list" where
  "register_part000 reg =
     (case MustRegister_stats stats reg of
        Inl p \<Rightarrow> Inl p
      | Inr reg' \<Rightarrow> MustRegister (Gauge_Desc lastUpdated_opts) reg')"

section \<open>Notions used in the statements\<close>

text \<open>
  The registry after the gauges of the pairs \<open>(stat, value)\<close> were set, in this order,
  for the device \<open>g\<close>.
\<close>

fun set_gauges :: "string \<Rightarrow> (nvidiaStat \<times> 'f) list \<Rightarrow> 'f registry \<Rightarrow> 'f registry" where
  "set_gauges g [] r = r"
| "set_gauges g ((s, v) # svs) r =
     set_gauges g svs (GaugeVec_Set (metric s) [(''gpu'', g)] [g] v r)"

text \<open>
  An instance of the library for the examples: \<open>float64\<close> values as rationals, and
  \<open>strconv.ParseFloat\<close> on plain decimal literals (an optional sign, digits, an optional
  fraction), read exactly; every other string is reported as a syntax error, with Go's
  error text. The examples use literals whose value \<open>float64\<close> represents exactly, and
  strings that are no number for Go either. No theorem about all inputs depends on it.
\<close>

definition is_digit :: "char \<Rightarrow> bool" where
  "is_digit c = (48 \<le> (of_char c :: nat) \<and> (of_char c :: nat) \<le> 57)"

definition digits_value :: "string \<Rightarrow> nat" where
  "digits_value s = foldl (\<lambda>a c. 10 * a + (of_char c - 48)) 0 s"

definition ParseFloat_decimal :: "string \<Rightarrow> string + rat" where
  "ParseFloat_decimal s =
     (let neg = (s \<noteq> [] \<and> hd s = CHR ''-'');
          t = (if s \<noteq> [] \<and> (hd s = CHR ''-'' \<or> hd s = CHR ''+'') then tl s else s);
          ip = takeWhile is_digit t;
          rest = dropWhile is_digit t;
          fp = (if rest \<noteq> [] \<and> hd rest = CHR ''.'' then tl rest else rest)
      in if ip @ fp \<noteq> [] \<and> list_all is_digit fp
         then Inr ((if neg then - 1 else 1) * of_nat (digits_value (ip @ fp)) / 10 ^ length fp)
         else Inl (''strconv.ParseFloat: parsing '' @ [CHR 0x22] @ s @ [CHR 0x22]
                     @ '': invalid syntax''))"

definition example_lib :: "rat golib" where
  "example_lib = \<lparr>ParseFloat = ParseFloat_decimal, float64 = of_int\<rparr>"

definition empty_registry :: "rat registry" where
  "empty_registry = \<lparr>lastUpdated = 0, children = Map.empty, writes = []\<rparr>"


text \<open>The labels a \<open>Set\<close> call on a gauge vector was given; none for the plain gauge.\<close>

fun event_labels :: "'f event \<Rightarrow> (string \<times> string) list option" where
  "event_labels (LastUpdatedSet v) = None"
| "event_labels (GaugeSet n ls v) = Some ls"

text \<open>The device id a line names: \<open>data[0]\<close> of the loop body.\<close>

definition device_of_line :: "string \<Rightarrow> string" where
  "device_of_line line0 = Split (take (length line0 - 1) line0) '', '' ! 0"

text \<open>
  The lines that successive calls of \<open>ReadBytes\<close> return with a nil error, each with
  its line feed.
\<close>

function ReadBytes_lines :: "string \<Rightarrow> string list" where
  "ReadBytes_lines inp =
     (case ReadBytes (CHR 0x0A) inp of
        (line, err, rest) \<Rightarrow> if err then [] else line # ReadBytes_lines rest)"
  by pat_completeness auto
termination
proof -
  have shorter: "length rest < length t"
    if "ReadBytes d t = (l, False, rest)" for d t l rest
    using that
    by (induction t arbitrary: l) (auto split: if_splits prod.splits)
  show ?thesis
    by (relation "measure length") (auto dest: shorter [OF sym])
qed

declare ReadBytes_lines.simps [simp del]

text \<open>A registry of the examples that holds values written by earlier lines.\<close>

definition earlier_registry :: "rat registry" where
  "earlier_registry =
     \<lparr>lastUpdated = 1499999995,
      children = map_of
        [((''nvidia_memory_used_megabytes'', [''0'']), 1000),
         ((''nvidia_gpu_utilization_percent'', [''0'']), 10),
         ((''nvidia_memory_used_megabytes'', [''1'']), 512),
         ((''nvidia_power_draw_watts'', [''1'']), 90)],
      writes = []\<rparr>"

section \<open>Splitting\<close>

lemma Index_None_iff: "Index s sep = None \<longleftrightarrow> \<not> (\<exists>u v. s = u @ sep @ v)"
proof (induction s)
  case Nil
  then show ?case by auto
next
  case (Cons c s)
  show ?case
  proof (cases "prefix sep (c # s)")
    case True
    then obtain v where "c # s = sep @ v" by (auto simp: prefix_def)
    then have "c # s = [] @ sep @ v" by simp
    with True show ?thesis by (metis Index.simps(2) option.distinct(1))
  next
    case False
    have "(\<exists>u v. c # s = u @ sep @ v) \<longleftrightarrow> (\<exists>u v. s = u @ sep @ v)"
    proof
      assume "\<exists>u v. c # s = u @ sep @ v"
      then obtain u v where uv: "c # s = u @ sep @ v" by blast
      from False uv have "u \<noteq> []" by (auto simp: prefix_def)
      then obtain u' where "u = c # u'" using uv by (cases u) auto
      with uv show "\<exists>u v. s = u @ sep @ v" by auto
    next
      assume "\<exists>u v. s = u @ sep @ v"
      then obtain u v where "s = u @ sep @ v" by blast
      then have "c # s = (c # u) @ sep @ v" by simp
      then show "\<exists>u v. c # s = u @ sep @ v" by blast
    qed
    with False Cons.IH show ?thesis by simp
  qed
qed

lemma Index_Some_split:
  "Index s sep = Some m \<Longrightarrow> s = take m s @ sep @ drop (m + length sep) s \<and> m + length sep \<le> length s"
proof (induction s arbitrary: m)
  case Nil
  then show ?case by (simp split: if_splits)
next
  case (Cons c s)
  show ?case
  proof (cases "prefix sep (c # s)")
    case True
    with Cons.prems have m: "m = 0" by simp
    from True obtain v where v: "c # s = sep @ v" by (auto simp: prefix_def)
    then have "drop (length sep) (c # s) = v" by (metis append_eq_conv_conj)
    with v m prefix_length_le [OF True] show ?thesis by simp
  next
    case False
    with Cons.prems obtain m' where m': "Index s sep = Some m'" "m = Suc m'" by auto
    from Cons.IH [OF m'(1)] m'(2) show ?thesis by simp
  qed
qed

lemma Index_Some_least:
  "Index s sep = Some m \<Longrightarrow> s = u @ sep @ v \<Longrightarrow> m \<le> length u"
proof (induction s arbitrary: m u)
  case Nil
  then show ?case by (simp split: if_splits)
next
  case (Cons c s)
  show ?case
  proof (cases "prefix sep (c # s)")
    case True
    with Cons.prems(1) have "m = 0" by simp
    then show ?thesis by simp
  next
    case False
    with Cons.prems(1) obtain m' where m': "Index s sep = Some m'" "m = Suc m'" by auto
    from False Cons.prems(2) have "u \<noteq> []" by (auto simp: prefix_def)
    then obtain u' where u': "u = c # u'" using Cons.prems(2) by (cases u) auto
    with Cons.prems(2) have "s = u' @ sep @ v" by simp
    from Cons.IH [OF m'(1) this] m'(2) u' show ?thesis by simp
  qed
qed

lemma Index_take_None:
  assumes "Index s sep = Some m" and "sep \<noteq> []"
  shows "Index (take m s) sep = None"
proof (rule ccontr)
  assume "Index (take m s) sep \<noteq> None"
  then obtain u v where uv: "take m s = u @ sep @ v" by (auto simp: Index_None_iff)
  have "s = take m s @ drop m s" by simp
  with uv have "s = u @ sep @ (v @ drop m s)" by (metis append.assoc)
  from Index_Some_least [OF assms(1) this] have "m \<le> length u" .
  moreover from uv have "length (take m s) = length u + length sep + length v" by simp
  moreover have "length (take m s) \<le> m" by simp
  ultimately show False using assms(2) by (cases sep) auto
qed

lemma Split_nonempty: "Split s sep = [] \<longleftrightarrow> s = [] \<and> sep = []"
  by (subst Split.simps) (auto split: option.splits)

lemma Join_Cons: "fs \<noteq> [] \<Longrightarrow> Join (f # fs) sep = f @ sep @ Join fs sep"
  by (cases fs) auto

lemma Join_Split: "sep \<noteq> [] \<Longrightarrow> Join (Split s sep) sep = s"
proof (induction s sep rule: Split.induct)
  case (1 s sep)
  show ?case
  proof (cases "Index s sep")
    case None
    with 1 show ?thesis by (subst Split.simps) simp
  next
    case (Some m)
    from 1 Some have IH: "Join (Split (drop (m + length sep) s) sep) sep = drop (m + length sep) s"
      by simp
    have ne: "Split (drop (m + length sep) s) sep \<noteq> []" using 1 by (simp add: Split_nonempty)
    from Index_Some_split [OF Some] IH ne "1.prems" Some show ?thesis
      by (subst Split.simps) (simp add: Join_Cons)
  qed
qed

lemma Split_fields_no_sep:
  "sep \<noteq> [] \<Longrightarrow> f \<in> set (Split s sep) \<Longrightarrow> Index f sep = None"
proof (induction s sep rule: Split.induct)
  case (1 s sep)
  show ?case
  proof (cases "Index s sep")
    case None
    with "1.prems" show ?thesis by (subst (asm) Split.simps) simp
  next
    case (Some m)
    with "1.prems" have "f = take m s \<or> f \<in> set (Split (drop (m + length sep) s) sep)"
      by (subst (asm) Split.simps) simp
    then show ?thesis
    proof
      assume "f = take m s"
      with Index_take_None [OF Some "1.prems"(1)] show ?thesis by simp
    next
      assume "f \<in> set (Split (drop (m + length sep) s) sep)"
      with "1.IH" [OF "1.prems"(1) Some "1.prems"(1)] show ?thesis by simp
    qed
  qed
qed

lemma Index_comma_space_append:
  "Index f '', '' = None \<Longrightarrow> Index (f @ '', '' @ v) '', '' = Some (length f)"
proof (induction f)
  case Nil
  then show ?case by simp
next
  case (Cons c f)
  from Cons.prems have np: "\<not> prefix '', '' (c # f)" and n: "Index f '', '' = None"
    by (auto split: if_splits)
  from np have "\<not> prefix '', '' (c # f @ '', '' @ v)"
    by (cases f) auto
  with Cons.IH [OF n] show ?case by simp
qed

lemma Split_Join_comma_space:
  "fs \<noteq> [] \<Longrightarrow> list_all (\<lambda>f. Index f '', '' = None) fs \<Longrightarrow> Split (Join fs '', '') '', '' = fs"
proof (induction fs)
  case Nil
  then show ?case by simp
next
  case (Cons a fs)
  show ?case
  proof (cases fs)
    case Nil
    with Cons.prems show ?thesis by (subst Split.simps) simp
  next
    case (Cons b bs)
    with Cons.IH Cons.prems have IH: "Split (Join (b # bs) '', '') '', '' = b # bs"
      and a: "Index a '', '' = None"
      by simp_all
    from Index_comma_space_append [OF a] IH Cons show ?thesis
      by (subst Split.simps) simp
  qed
qed


section \<open>The loop over the metrics\<close>

lemma With_gpu_Some:
  "With vec [(''gpu'', g)] = Some lvs \<Longrightarrow> lvs = [g] \<and> labelNames vec = [''gpu'']"
  by (cases "labelNames vec") (auto simp: With_def split: if_splits)

lemma With_gpu: "labelNames vec = [''gpu''] \<Longrightarrow> With vec [(''gpu'', g)] = Some [g]"
  by (simp add: With_def)

lemma stats_labelNames: "list_all (\<lambda>s. labelNames (metric s) = [''gpu'']) stats"
  by (simp add: stats_def NewGaugeVec_def)

lemma scrapeSmi_stats_prefix:
  "list_all (\<lambda>s. labelNames (metric s) = [''gpu'']) ss \<Longrightarrow> length vs = k \<Longrightarrow> k \<le> length ss
   \<Longrightarrow> i + k < length data \<or> k = 0
   \<Longrightarrow> (\<forall>j<k. ParseFloat L (data ! (i + 1 + j)) = Inr (vs ! j))
   \<Longrightarrow> scrapeSmi_stats L data g i ss r =
       scrapeSmi_stats L data g (i + k) (drop k ss) (set_gauges g (zip (take k ss) vs) r)"
proof (induction ss arbitrary: i k vs r)
  case Nil
  then show ?case by simp
next
  case (Cons s ss)
  show ?case
  proof (cases vs)
    case Nil
    with Cons.prems show ?thesis by simp
  next
    case (Cons v vs')
    with Cons.prems obtain k' where k: "k = Suc k'" "length vs' = k'" "k' \<le> length ss"
      by auto
    from Cons.prems k have len: "\<not> length data \<le> i + 1" by auto
    from Cons.prems(5) k have "ParseFloat L (data ! (i + 1 + 0)) = Inr (vs ! 0)" by blast
    with \<open>vs = v # vs'\<close> have p0: "ParseFloat L (data ! (i + 1)) = Inr v" by simp
    have ps: "\<forall>j<k'. ParseFloat L (data ! (i + 1 + 1 + j)) = Inr (vs' ! j)"
    proof (intro allI impI)
      fix j assume "j < k'"
      with Cons.prems(5) k have "ParseFloat L (data ! (i + 1 + Suc j)) = Inr (vs ! Suc j)" by blast
      with \<open>vs = v # vs'\<close> show "ParseFloat L (data ! (i + 1 + 1 + j)) = Inr (vs' ! j)" by simp
    qed
    from Cons.prems(1) have w: "With (metric s) [(''gpu'', g)] = Some [g]"
      by (simp add: With_gpu)
    from Cons.prems(1) have la: "list_all (\<lambda>s. labelNames (metric s) = [''gpu'']) ss" by simp
    from Cons.prems(4) k have b: "i + 1 + k' < length data \<or> k' = 0" by auto
    from Cons.IH [OF la k(2) k(3) b ps] len p0 w k \<open>vs = v # vs'\<close> show ?thesis
      by simp
  qed
qed

lemma set_gauges_lastUpdated [simp]: "lastUpdated (set_gauges g svs r) = lastUpdated r"
  by (induction g svs r rule: set_gauges.induct) (auto simp: GaugeVec_Set_def)

lemma set_gauges_writes:
  "writes (set_gauges g svs r) =
     writes r @ map (\<lambda>(s, v). GaugeSet (Name (opts (metric s))) [(''gpu'', g)] v) svs"
  by (induction g svs r rule: set_gauges.induct) (auto simp: GaugeVec_Set_def)

lemma set_gauges_children_other:
  "(n, ls) \<notin> (\<lambda>(s, v). (Name (opts (metric s)), [g])) ` set svs
    \<Longrightarrow> children (set_gauges g svs r) (n, ls) = children r (n, ls)"
  by (induction g svs r rule: set_gauges.induct) (auto simp: GaugeVec_Set_def)

lemma set_gauges_children_nth:
  "distinct (map (\<lambda>(s, v). Name (opts (metric s))) svs) \<Longrightarrow> j < length svs
    \<Longrightarrow> children (set_gauges g svs r) (Name (opts (metric (fst (svs ! j)))), [g]) = Some (snd (svs ! j))"
proof (induction g svs r arbitrary: j rule: set_gauges.induct)
  case (1 g r)
  then show ?case by simp
next
  case (2 g s v svs r)
  show ?case
  proof (cases j)
    case 0
    from "2.prems"(1) have "(Name (opts (metric s)), [g]) \<notin> (\<lambda>(s, v). (Name (opts (metric s)), [g])) ` set svs"
      by force
    from set_gauges_children_other [OF this] 0 show ?thesis
      by (simp add: GaugeVec_Set_def)
  next
    case (Suc j')
    with "2.prems" "2.IH" [of j'] show ?thesis by simp
  qed
qed

lemma set_gauges_dom:
  "children r key \<noteq> None \<Longrightarrow> children (set_gauges g svs r) key \<noteq> None"
  by (induction g svs r rule: set_gauges.induct) (auto simp: GaugeVec_Set_def)

lemma length_stats: "length stats = 6"
  by (simp add: stats_def)

lemma stats_Names_distinct: "distinct (map (\<lambda>s. Name (opts (metric s))) stats)"
  by (simp add: stats_def NewGaugeVec_def)

lemma scrapeSmi_line_eq:
  "scrapeSmi_line L now (body @ [CHR 0x0A]) r =
     (if length (Split body '', '') \<noteq> length stats + 1
      then Fatal (''invalid nvidia-smi output: '' @ body) (Gauge_Set (float64 L now) r)
      else scrapeSmi_stats L (Split body '', '') (Split body '', '' ! 0) 0 stats
             (Gauge_Set (float64 L now) r))"
  by (simp add: scrapeSmi_line_def Let_def)

lemma scrapeSmi_line_part000_eq:
  "scrapeSmi_line_part000 L now (body @ [CHR 0x0A]) r =
     scrapeSmi_stats L (Split body '', '') (Split body '', '' ! 0) 0 stats
       (Gauge_Set (float64 L now) r)"
  by (simp add: scrapeSmi_line_part000_def Let_def Split_nonempty)

lemma scrapeSmi_stats_all_ok:
  assumes "length raws = length stats" "length vs = length stats"
    and "\<forall>i<length stats. ParseFloat L (raws ! i) = Inr (vs ! i)"
  shows "scrapeSmi_stats L (gpu # raws) gpu 0 stats r = Continue (set_gauges gpu (zip stats vs) r)"
proof -
  have "scrapeSmi_stats L (gpu # raws) gpu 0 stats r =
     scrapeSmi_stats L (gpu # raws) gpu (0 + length stats) (drop (length stats) stats)
       (set_gauges gpu (zip (take (length stats) stats) vs) r)"
    using assms by (intro scrapeSmi_stats_prefix stats_labelNames) auto
  then show ?thesis by simp
qed

lemma scrapeSmi_stats_fails_at:
  assumes "length raws = length stats" "length vs = k" "k < length stats"
    and "\<forall>i<k. ParseFloat L (raws ! i) = Inr (vs ! i)"
    and "ParseFloat L (raws ! k) = Inl err"
  shows "scrapeSmi_stats L (gpu # raws) gpu 0 stats r =
           Fatal (''error converting '' @ name (stats ! k) @ '' value ('' @ raws ! k
                    @ '') to float: '' @ err)
             (set_gauges gpu (zip (take k stats) vs) r)"
proof -
  have "scrapeSmi_stats L (gpu # raws) gpu 0 stats r =
     scrapeSmi_stats L (gpu # raws) gpu (0 + k) (drop k stats)
       (set_gauges gpu (zip (take k stats) vs) r)"
    using assms by (intro scrapeSmi_stats_prefix stats_labelNames) auto
  moreover from assms(3) have "drop k stats = stats ! k # drop (Suc k) stats"
    by (simp add: Cons_nth_drop_Suc)
  ultimately show ?thesis using assms by simp
qed

lemma all_less_6: "(\<forall>i<(6::nat). P i) \<longleftrightarrow> P 0 \<and> P 1 \<and> P 2 \<and> P 3 \<and> P 4 \<and> P 5"
proof -
  have "{..<(6::nat)} = {0, 1, 2, 3, 4, 5}" by auto
  then have "(\<forall>i\<in>{..<(6::nat)}. P i) \<longleftrightarrow> (\<forall>i\<in>{0, 1, 2, 3, 4, 5}. P i)" by simp
  moreover have "(\<forall>i<(6::nat). P i) \<longleftrightarrow> (\<forall>i\<in>{..<(6::nat)}. P i)" by auto
  ultimately show ?thesis by simp
qed

text \<open>
  Claim C1. A line of exactly seven fields separated by \<open>", "\<close> whose six metric
  fields all parse: both source files take the first field as the device id, parse the six
  others in the query order \<open>memory.used\<close>, \<open>memory.total\<close>, \<open>utilization.gpu\<close>,
  \<open>utilization.memory\<close>, \<open>temperature.gpu\<close>, \<open>power.draw\<close>, and go on with a
  registry in which each metric's gauge for that device holds the parsed value.
\<close>

theorem scrapeSmi_line_well_formed:
  assumes "Split body '', '' = gpu # raws"
    and "length raws = length stats" and "length vs = length stats"
    and "\<forall>i<length stats. ParseFloat L (raws ! i) = Inr (vs ! i)"
  shows "\<exists>r'. scrapeSmi_line L now (body @ [CHR 0x0A]) r = Continue r'
           \<and> scrapeSmi_line_part000 L now (body @ [CHR 0x0A]) r = Continue r'
           \<and> (\<forall>i<length stats. children r' (Name (opts (metric (stats ! i))), [gpu]) = Some (vs ! i))
           \<and> writes r' = writes r @ LastUpdatedSet (float64 L now)
                # map (\<lambda>(s, v). GaugeSet (Name (opts (metric s))) [(''gpu'', gpu)] v) (zip stats vs)
           \<and> map name stats = [''memory.used'', ''memory.total'', ''utilization.gpu'',
                ''utilization.memory'', ''temperature.gpu'', ''power.draw'']"
proof -
  let ?r1 = "Gauge_Set (float64 L now) r"
  let ?r' = "set_gauges gpu (zip stats vs) ?r1"
  from assms have run: "scrapeSmi_stats L (gpu # raws) gpu 0 stats ?r1 = Continue ?r'"
    by (intro scrapeSmi_stats_all_ok)
  from assms(1,2) run have a: "scrapeSmi_line L now (body @ [CHR 0x0A]) r = Continue ?r'"
    by (simp add: scrapeSmi_line_eq)
  from assms(1) run have b: "scrapeSmi_line_part000 L now (body @ [CHR 0x0A]) r = Continue ?r'"
    by (simp add: scrapeSmi_line_part000_eq)
  have c: "\<forall>i<length stats. children ?r' (Name (opts (metric (stats ! i))), [gpu]) = Some (vs ! i)"
  proof (intro allI impI)
    fix i assume i: "i < length stats"
    have "map (\<lambda>(s, v). Name (opts (metric s))) (zip stats vs)
            = map (\<lambda>s. Name (opts (metric s))) (map fst (zip stats vs))"
      by (simp add: case_prod_unfold)
    also have "\<dots> = map (\<lambda>s. Name (opts (metric s))) stats"
      using assms(3) by simp
    finally have d: "distinct (map (\<lambda>(s, v). Name (opts (metric s))) (zip stats vs))"
      using stats_Names_distinct by simp
    from set_gauges_children_nth [OF d, of i gpu ?r1] i assms(3)
    show "children ?r' (Name (opts (metric (stats ! i))), [gpu]) = Some (vs ! i)" by simp
  qed
  have w: "writes ?r' = writes r @ LastUpdatedSet (float64 L now)
                # map (\<lambda>(s, v). GaugeSet (Name (opts (metric s))) [(''gpu'', gpu)] v) (zip stats vs)"
    by (simp add: set_gauges_writes Gauge_Set_def)
  have n: "map name stats = [''memory.used'', ''memory.total'', ''utilization.gpu'',
                ''utilization.memory'', ''temperature.gpu'', ''power.draw'']"
    by (simp add: stats_def)
  show ?thesis
    by (rule exI [of _ ?r']) (intro conjI a b c w n)
qed



theorem scrapeSmi_line_well_formed_witness:
  "\<exists>r'. scrapeSmi_line example_lib 1500000000 ''0, 1024, 8192, 15, 3, 42, 120.5\<newline>''
             empty_registry = Continue r'
      \<and> scrapeSmi_line_part000 example_lib 1500000000 ''0, 1024, 8192, 15, 3, 42, 120.5\<newline>''
             empty_registry = Continue r'
      \<and> children r' (''nvidia_memory_used_megabytes'', [''0'']) = Some 1024
      \<and> children r' (''nvidia_memory_total_megabytes'', [''0'']) = Some 8192
      \<and> children r' (''nvidia_gpu_utilization_percent'', [''0'']) = Some 15
      \<and> children r' (''nvidia_memory_utilization_percent'', [''0'']) = Some 3
      \<and> children r' (''nvidia_temperature_celsius'', [''0'']) = Some 42
      \<and> children r' (''nvidia_power_draw_watts'', [''0'']) = Some (241 / 2)"
proof -
  let ?raws = "[''1024'', ''8192'', ''15'', ''3'', ''42'', ''120.5'']"
  let ?vs = "[1024, 8192, 15, 3, 42, 241 / 2] :: rat list"
  have split: "Split ''0, 1024, 8192, 15, 3, 42, 120.5'' '', '' = ''0'' # ?raws"
    by (simp add: Split.simps)
  have len: "length ?raws = length stats" "length ?vs = length stats"
    by (simp_all add: length_stats)
  have "\<forall>i<6. ParseFloat example_lib (?raws ! i) = Inr (?vs ! i)"
    by (simp add: all_less_6 example_lib_def ParseFloat_decimal_def is_digit_def
        digits_value_def)
  then have pf: "\<forall>i<length stats. ParseFloat example_lib (?raws ! i) = Inr (?vs ! i)"
    by (simp only: length_stats)
  from scrapeSmi_line_well_formed [OF split len pf, of 1500000000 empty_registry]
  obtain r' where
    a: "scrapeSmi_line example_lib 1500000000 (''0, 1024, 8192, 15, 3, 42, 120.5'' @ [CHR 0x0A])
          empty_registry = Continue r'"
    and b: "scrapeSmi_line_part000 example_lib 1500000000
          (''0, 1024, 8192, 15, 3, 42, 120.5'' @ [CHR 0x0A]) empty_registry = Continue r'"
    and c: "\<forall>i<length stats. children r' (Name (opts (metric (stats ! i))), [''0'']) = Some (?vs ! i)"
    by blast
  from c have "\<forall>i<6. children r' (Name (opts (metric (stats ! i))), [''0'']) = Some (?vs ! i)"
    by (simp only: length_stats)
  then have d: "children r' (''nvidia_memory_used_megabytes'', [''0'']) = Some 1024
      \<and> children r' (''nvidia_memory_total_megabytes'', [''0'']) = Some 8192
      \<and> children r' (''nvidia_gpu_utilization_percent'', [''0'']) = Some 15
      \<and> children r' (''nvidia_memory_utilization_percent'', [''0'']) = Some 3
      \<and> children r' (''nvidia_temperature_celsius'', [''0'']) = Some 42
      \<and> children r' (''nvidia_power_draw_watts'', [''0'']) = Some (241 / 2)"
    by (simp add: all_less_6 stats_def NewGaugeVec_def)
  from a b d show ?thesis by (intro exI [of _ r']) simp
qed

section \<open>The loop over the metrics, for any fields\<close>

lemma scrapeSmi_stats_lastUpdated:
  "lastUpdated (registry_of (scrapeSmi_stats L data g i ss r)) = lastUpdated r"
  by (induction L data g i ss r rule: scrapeSmi_stats.induct)
     (auto simp: GaugeVec_Set_def split: sum.splits option.splits)

lemma scrapeSmi_stats_writes:
  "\<exists>es. writes (registry_of (scrapeSmi_stats L data g i ss r)) = writes r @ es
        \<and> list_all (\<lambda>e. event_labels e = Some [(''gpu'', g)]) es"
proof (induction L data g i ss r rule: scrapeSmi_stats.induct)
  case (1 L data gpu i r)
  then show ?case by simp
next
  case (2 L data gpu i stat rest r)
  show ?case
  proof (cases "length data \<le> i + 1")
    case True
    then show ?thesis by simp
  next
    case False
    show ?thesis
    proof (cases "ParseFloat L (data ! (i + 1))")
      case (Inl err)
      with False show ?thesis by simp
    next
      case (Inr v)
      show ?thesis
      proof (cases "With (metric stat) [(''gpu'', gpu)]")
        case None
        with False Inr show ?thesis by simp
      next
        case (Some lvs)
        let ?r1 = "GaugeVec_Set (metric stat) [(''gpu'', gpu)] lvs v r"
        from "2.IH" [OF False Inr Some] obtain es where
          es: "writes (registry_of (scrapeSmi_stats L data gpu (i + 1) rest ?r1)) = writes ?r1 @ es"
            "list_all (\<lambda>e. event_labels e = Some [(''gpu'', gpu)]) es"
          by blast
        have "writes ?r1 = writes r @ [GaugeSet (Name (opts (metric stat))) [(''gpu'', gpu)] v]"
          by (simp add: GaugeVec_Set_def)
        with es False Inr Some show ?thesis by simp
      qed
    qed
  qed
qed

lemma scrapeSmi_stats_children_kept:
  "children r key \<noteq> None
    \<Longrightarrow> children (registry_of (scrapeSmi_stats L data g i ss r)) key \<noteq> None"
  by (induction L data g i ss r rule: scrapeSmi_stats.induct)
     (auto simp: GaugeVec_Set_def split: sum.splits option.splits)

lemma scrapeSmi_stats_children_other:
  "snd key \<noteq> [g]
    \<Longrightarrow> children (registry_of (scrapeSmi_stats L data g i ss r)) key = children r key"
proof (induction L data g i ss r rule: scrapeSmi_stats.induct)
  case (1 L data gpu i r)
  then show ?case by simp
next
  case (2 L data gpu i stat rest r)
  show ?case
  proof (cases "length data \<le> i + 1")
    case True
    then show ?thesis by simp
  next
    case False
    show ?thesis
    proof (cases "ParseFloat L (data ! (i + 1))")
      case (Inl err)
      with False show ?thesis by simp
    next
      case (Inr v)
      show ?thesis
      proof (cases "With (metric stat) [(''gpu'', gpu)]")
        case None
        with False Inr show ?thesis by simp
      next
        case (Some lvs)
        from With_gpu_Some [OF Some] have lvs: "lvs = [gpu]" by simp
        from "2.IH" [OF False Inr Some "2.prems"] "2.prems" lvs False Inr Some
        show ?thesis by (cases key) (simp add: GaugeVec_Set_def)
      qed
    qed
  qed
qed

lemma scrapeSmi_stats_no_panic:
  "list_all (\<lambda>s. labelNames (metric s) = [''gpu'']) ss \<Longrightarrow> i + length ss < length data
    \<Longrightarrow> \<not> is_Panic (scrapeSmi_stats L data g i ss r)"
  by (induction L data g i ss r rule: scrapeSmi_stats.induct)
     (auto simp: With_gpu split: sum.splits option.splits)

lemma set_gauges_take_children:
  assumes "length vs = k" "k \<le> length stats"
  shows "\<forall>i<k. children (set_gauges g (zip (take k stats) vs) r)
                 (Name (opts (metric (stats ! i))), [g]) = Some (vs ! i)"
    and "\<forall>j. k \<le> j \<and> j < length stats \<longrightarrow>
           children (set_gauges g (zip (take k stats) vs) r)
             (Name (opts (metric (stats ! j))), [g])
           = children r (Name (opts (metric (stats ! j))), [g])"
proof -
  let ?N = "\<lambda>s. Name (opts (metric s))"
  let ?svs = "zip (take k stats) vs"
  have names: "map (\<lambda>(s, v). ?N s) ?svs = take k (map ?N stats)"
  proof -
    have "map (\<lambda>(s, v). ?N s) ?svs = map ?N (map fst ?svs)"
      by (simp add: case_prod_unfold)
    also have "\<dots> = map ?N (take k stats)" using assms by simp
    finally show ?thesis by (simp add: take_map)
  qed
  have d: "distinct (map (\<lambda>(s, v). ?N s) ?svs)"
    unfolding names using stats_Names_distinct by (rule distinct_take)
  show "\<forall>i<k. children (set_gauges g ?svs r) (?N (stats ! i), [g]) = Some (vs ! i)"
  proof (intro allI impI)
    fix i assume i: "i < k"
    with assms have "i < length ?svs" by simp
    from set_gauges_children_nth [OF d this, of g r] i assms
    show "children (set_gauges g ?svs r) (?N (stats ! i), [g]) = Some (vs ! i)" by simp
  qed
  show "\<forall>j. k \<le> j \<and> j < length stats \<longrightarrow>
           children (set_gauges g ?svs r) (?N (stats ! j), [g]) = children r (?N (stats ! j), [g])"
  proof (intro allI impI)
    fix j assume j: "k \<le> j \<and> j < length stats"
    have "(?N (stats ! j), [g]) \<notin> (\<lambda>(s, v). (?N s, [g])) ` set ?svs"
    proof
      assume "(?N (stats ! j), [g]) \<in> (\<lambda>(s, v). (?N s, [g])) ` set ?svs"
      then obtain s v where sv: "(s, v) \<in> set ?svs" "?N s = ?N (stats ! j)" by auto
      from sv(1) have "s \<in> set (take k stats)" by (rule set_zip_leftD)
      then obtain i where i: "i < length (take k stats)" "take k stats ! i = s"
        by (auto simp: in_set_conv_nth)
      then have ik: "i < k" "i < length stats" "stats ! i = s" using assms by simp_all
      with sv(2) j have eq: "map ?N stats ! i = map ?N stats ! j" by simp
      have "i < length (map ?N stats)" "j < length (map ?N stats)" using ik j by simp_all
      from nth_eq_iff_index_eq [OF stats_Names_distinct this] eq have "i = j" by blast
      with ik j show False by simp
    qed
    then show "children (set_gauges g ?svs r) (?N (stats ! j), [g]) = children r (?N (stats ! j), [g])"
      by (rule set_gauges_children_other)
  qed
qed

section \<open>One line\<close>

lemma scrapeSmi_line_cases:
  "scrapeSmi_line L now line0 r = Panic SliceBoundsOutOfRange (Gauge_Set (float64 L now) r)
   \<or> (\<exists>msg. scrapeSmi_line L now line0 r = Fatal msg (Gauge_Set (float64 L now) r))
   \<or> (\<exists>data g. scrapeSmi_line L now line0 r
         = scrapeSmi_stats L data g 0 stats (Gauge_Set (float64 L now) r))"
  by (auto simp: scrapeSmi_line_def Let_def)

lemma scrapeSmi_line_part000_cases:
  "scrapeSmi_line_part000 L now line0 r
     = Panic SliceBoundsOutOfRange (Gauge_Set (float64 L now) r)
   \<or> scrapeSmi_line_part000 L now line0 r = Panic IndexOutOfRange (Gauge_Set (float64 L now) r)
   \<or> (\<exists>data g. scrapeSmi_line_part000 L now line0 r
         = scrapeSmi_stats L data g 0 stats (Gauge_Set (float64 L now) r))"
  by (auto simp: scrapeSmi_line_part000_def Let_def)

lemma after_Gauge_Set:
  assumes "out = Panic p (Gauge_Set t r) \<or> (\<exists>msg. out = Fatal msg (Gauge_Set t r))
           \<or> (\<exists>data g. out = scrapeSmi_stats L data g 0 stats (Gauge_Set t r))"
  shows "lastUpdated (registry_of out) = t
         \<and> (\<exists>es. writes (registry_of out) = writes r @ LastUpdatedSet t # es
                 \<and> list_all (\<lambda>e. event_labels e \<noteq> None) es)"
proof -
  have w: "writes (Gauge_Set t r) = writes r @ [LastUpdatedSet t]"
    and l: "lastUpdated (Gauge_Set t r) = t"
    by (simp_all add: Gauge_Set_def)
  from assms consider (stop) "registry_of out = Gauge_Set t r"
    | (run) data g where "out = scrapeSmi_stats L data g 0 stats (Gauge_Set t r)"
    by auto
  then show ?thesis
  proof cases
    case stop
    with w l show ?thesis by simp
  next
    case run
    from scrapeSmi_stats_writes [of L data g 0 stats "Gauge_Set t r"] obtain es where
      es: "writes (registry_of (scrapeSmi_stats L data g 0 stats (Gauge_Set t r)))
             = writes (Gauge_Set t r) @ es"
        "list_all (\<lambda>e. event_labels e = Some [(''gpu'', g)]) es"
      by blast
    from es(2) have "list_all (\<lambda>e. event_labels e \<noteq> None) es"
      by (induction es) auto
    with es(1) run w l show ?thesis
      by (simp add: scrapeSmi_stats_lastUpdated)
  qed
qed

lemma ReadBytes_ok_nonempty: "ReadBytes d inp = (line, False, rest) \<Longrightarrow> line \<noteq> []"
  by (induction inp arbitrary: line) (auto split: if_splits prod.splits)

lemma scrapeSmi_line_no_panic: "line0 \<noteq> [] \<Longrightarrow> \<not> is_Panic (scrapeSmi_line L now line0 r)"
proof -
  assume ne: "line0 \<noteq> []"
  let ?data = "Split (take (length line0 - 1) line0) '', ''"
  show ?thesis
  proof (cases "length ?data \<noteq> length stats + 1")
    case True
    with ne show ?thesis by (simp add: scrapeSmi_line_def Let_def)
  next
    case False
    then have "0 + length stats < length ?data" by simp
    from scrapeSmi_stats_no_panic [OF stats_labelNames this] False ne
    show ?thesis by (simp add: scrapeSmi_line_def Let_def)
  qed
qed

lemma scrapeSmi_loop_no_panic:
  "\<not> is_Panic (scrapeSmi_loop (scrapeSmi_line L) clock k inp r)"
proof (induction "scrapeSmi_line L" clock k inp r rule: scrapeSmi_loop.induct)
  case (1 clock k inp r)
  obtain line err rest where rb: "ReadBytes (CHR 0x0A) inp = (line, err, rest)"
    by (cases "ReadBytes (CHR 0x0A) inp") auto
  show ?case
  proof (cases err)
    case True
    with rb show ?thesis by (subst scrapeSmi_loop.simps) simp
  next
    case False
    with rb have ne: "line \<noteq> []" by (auto dest: ReadBytes_ok_nonempty)
    show ?thesis
    proof (cases "scrapeSmi_line L (clock k) line r")
      case (Continue r')
      from False have ne': "\<not> err" by simp
      from "1.hyps" [OF rb [symmetric] refl ne' Continue] False rb Continue
      show ?thesis by (subst scrapeSmi_loop.simps) simp
    next
      case (Fatal msg r')
      with rb False show ?thesis by (subst scrapeSmi_loop.simps) simp
    next
      case (Panic p r')
      with scrapeSmi_line_no_panic [OF ne, of L "clock k" r] show ?thesis by simp
    qed
  qed
qed

lemma scrapeSmi_line_field_count_fatal:
  "length (Split body '', '') \<noteq> length stats + 1 \<Longrightarrow>
   scrapeSmi_line L now (body @ [CHR 0x0A]) r
     = Fatal (''invalid nvidia-smi output: '' @ body) (Gauge_Set (float64 L now) r)"
  by (simp add: scrapeSmi_line_eq)

lemma ex_split_abc:
  "Split ''0, 1024, 8192, abc, 3, 42, 120.5'' '', ''
     = ''0'' # [''1024'', ''8192'', ''abc'', ''3'', ''42'', ''120.5'']"
  by (simp add: Split.simps)

lemma ex_parse_abc:
  \<open>ParseFloat example_lib ''abc'' = Inl ''strconv.ParseFloat: parsing "abc": invalid syntax''\<close>
  by (simp add: example_lib_def ParseFloat_decimal_def is_digit_def)

lemma ex_parse_1024_8192:
  "ParseFloat example_lib ''1024'' = Inr 1024" "ParseFloat example_lib ''8192'' = Inr 8192"
  by (simp_all add: example_lib_def ParseFloat_decimal_def is_digit_def digits_value_def)

lemma no_sep_quoted:
  "\<forall>f \<in> set [[CHR 0x22, CHR ''a''], [CHR ''b'', CHR 0x22], ''1'']. \<not> (\<exists>u v. f = u @ '', '' @ v)"
proof -
  have "\<forall>f \<in> set [[CHR 0x22, CHR ''a''], [CHR ''b'', CHR 0x22], ''1'']. Index f '', '' = None"
    by simp
  then show ?thesis by (simp only: Index_None_iff)
qed

lemma scrapeSmi_line_outcome:
  "registry_of (scrapeSmi_line L now line0 r) = Gauge_Set (float64 L now) r
   \<or> (\<exists>data. scrapeSmi_line L now line0 r
         = scrapeSmi_stats L data (device_of_line line0) 0 stats (Gauge_Set (float64 L now) r))"
  by (auto simp: scrapeSmi_line_def Let_def device_of_line_def)

lemma scrapeSmi_line_part000_outcome:
  "registry_of (scrapeSmi_line_part000 L now line0 r) = Gauge_Set (float64 L now) r
   \<or> (\<exists>data. scrapeSmi_line_part000 L now line0 r
         = scrapeSmi_stats L data (device_of_line line0) 0 stats (Gauge_Set (float64 L now) r))"
  by (auto simp: scrapeSmi_line_part000_def Let_def device_of_line_def)

lemma line_outcome_props:
  assumes "registry_of out = Gauge_Set t r
     \<or> (\<exists>data. out = scrapeSmi_stats L data g 0 stats (Gauge_Set t r))"
  shows "children r key \<noteq> None \<longrightarrow> children (registry_of out) key \<noteq> None"
    and "snd key \<noteq> [g] \<longrightarrow> children (registry_of out) key = children r key"
    and "\<exists>es. writes (registry_of out) = writes r @ LastUpdatedSet t # es
            \<and> list_all (\<lambda>e. event_labels e = Some [(''gpu'', g)]) es"
proof -
  have ch: "children (Gauge_Set t r) = children r"
    and w: "writes (Gauge_Set t r) = writes r @ [LastUpdatedSet t]"
    by (simp_all add: Gauge_Set_def)
  from assms consider (stop) "registry_of out = Gauge_Set t r"
    | (run) data where "out = scrapeSmi_stats L data g 0 stats (Gauge_Set t r)"
    by auto
  note cs = this
  show "children r key \<noteq> None \<longrightarrow> children (registry_of out) key \<noteq> None"
  proof (cases rule: cs)
    case stop
    with ch show ?thesis by simp
  next
    case run
    with scrapeSmi_stats_children_kept [of "Gauge_Set t r" key L data g 0 stats] ch
    show ?thesis by simp
  qed
  show "snd key \<noteq> [g] \<longrightarrow> children (registry_of out) key = children r key"
  proof (cases rule: cs)
    case stop
    with ch show ?thesis by simp
  next
    case run
    with scrapeSmi_stats_children_other [of key g L data 0 stats "Gauge_Set t r"] ch
    show ?thesis by simp
  qed
  show "\<exists>es. writes (registry_of out) = writes r @ LastUpdatedSet t # es
            \<and> list_all (\<lambda>e. event_labels e = Some [(''gpu'', g)]) es"
  proof (cases rule: cs)
    case stop
    with w show ?thesis by simp
  next
    case run
    from scrapeSmi_stats_writes [of L data g 0 stats "Gauge_Set t r"] obtain es where
      "writes (registry_of (scrapeSmi_stats L data g 0 stats (Gauge_Set t r)))
             = writes (Gauge_Set t r) @ es"
      "list_all (\<lambda>e. event_labels e = Some [(''gpu'', g)]) es"
      by blast
    with run w show ?thesis by simp
  qed
qed

lemma scrapeSmi_loop_invariant:
  fixes P :: "'f registry \<Rightarrow> bool"
  assumes "\<And>now line r. line \<in> set (ReadBytes_lines inp) \<Longrightarrow> P r
              \<Longrightarrow> P (registry_of (body now line r))"
    and "P r"
  shows "P (registry_of (scrapeSmi_loop body clock k inp r))"
  using assms
proof (induction body clock k inp r rule: scrapeSmi_loop.induct)
  case (1 body clock k inp r)
  obtain line err rest where rb: "ReadBytes (CHR 0x0A) inp = (line, err, rest)"
    by (cases "ReadBytes (CHR 0x0A) inp") auto
  show ?case
  proof (cases err)
    case True
    with rb "1.prems"(2) show ?thesis by (subst scrapeSmi_loop.simps) simp
  next
    case False
    then have ne: "\<not> err" by simp
    from rb False have lines: "ReadBytes_lines inp = line # ReadBytes_lines rest"
      by (subst ReadBytes_lines.simps) simp
    then have "line \<in> set (ReadBytes_lines inp)" by simp
    from "1.prems"(1) [OF this "1.prems"(2)]
    have step: "P (registry_of (body (clock k) line r))" .
    show ?thesis
    proof (cases "body (clock k) line r")
      case (Continue r')
      with step have r': "P r'" by simp
      have "P (registry_of (scrapeSmi_loop body clock (k + 1) rest r'))"
      proof (rule "1.IH" [OF rb [symmetric] refl ne Continue _ r'])
        fix now l and r0 :: "'f registry"
        assume "l \<in> set (ReadBytes_lines rest)" and p: "P r0"
        with lines have "l \<in> set (ReadBytes_lines inp)" by simp
        from "1.prems"(1) [OF this p] show "P (registry_of (body now l r0))" .
      qed
      with rb False Continue show ?thesis by (subst scrapeSmi_loop.simps) simp
    next
      case (Fatal msg r')
      with step rb False show ?thesis by (subst scrapeSmi_loop.simps) simp
    next
      case (Panic p r')
      with step rb False show ?thesis by (subst scrapeSmi_loop.simps) simp
    qed
  qed
qed

section \<open>The claims about a line\<close>

text \<open>
  Claim C2 fails on \<open>src/unnamed/part_000\<close>, which has no check of the number of
  fields: a line of eight fields is processed with its last field ignored, and a line of
  four fields sets three gauges and then panics on \<open>data[4]\<close>. The loop body of
  \<open>nvidia_exporter.go\<close> ends fatally on both lines, reporting the line.
\<close>

theorem part000_field_count_unchecked:
  "scrapeSmi_line_part000 example_lib 1500000000 ''0, 1024, 8192, 15, 3, 42, 120.5, 7\<newline>''
       empty_registry
     = Continue (set_gauges ''0'' (zip stats [1024, 8192, 15, 3, 42, 241 / 2])
         (Gauge_Set 1500000000 empty_registry))
   \<and> scrapeSmi_line_part000 example_lib 1500000000 ''1, 512, 8192, 10\<newline>'' empty_registry
     = Panic IndexOutOfRange (set_gauges ''1'' (zip (take 3 stats) [512, 8192, 10])
         (Gauge_Set 1500000000 empty_registry))
   \<and> scrapeSmi_line example_lib 1500000000 ''0, 1024, 8192, 15, 3, 42, 120.5, 7\<newline>''
       empty_registry
     = Fatal ''invalid nvidia-smi output: 0, 1024, 8192, 15, 3, 42, 120.5, 7''
         (Gauge_Set 1500000000 empty_registry)
   \<and> scrapeSmi_line example_lib 1500000000 ''1, 512, 8192, 10\<newline>'' empty_registry
     = Fatal ''invalid nvidia-smi output: 1, 512, 8192, 10''
         (Gauge_Set 1500000000 empty_registry)"
  by (simp add: scrapeSmi_line_part000_def scrapeSmi_line_def Let_def Split.simps stats_def
      NewGaugeVec_def With_def example_lib_def ParseFloat_decimal_def is_digit_def
      digits_value_def)

text \<open>
  Claim C3. When some metric field of a seven-field line does not parse, both source files
  end the process with \<open>log.Fatalf\<close>, reporting the name of the metric, the raw field
  and the error of the parse for the first such field \<open>k\<close>; the gauge of that metric
  is left as it was, and only the timestamp and the \<open>k\<close> fields before it were written.
\<close>

theorem scrapeSmi_line_parse_failure_fatal:
  assumes "Split body '', '' = gpu # raws" and "length raws = length stats"
    and "\<exists>i<length stats. isl (ParseFloat L (raws ! i))"
  shows "\<exists>k err r' vs. k < length stats \<and> ParseFloat L (raws ! k) = Inl err
           \<and> scrapeSmi_line L now (body @ [CHR 0x0A]) r
               = Fatal (''error converting '' @ name (stats ! k) @ '' value ('' @ raws ! k
                          @ '') to float: '' @ err) r'
           \<and> scrapeSmi_line_part000 L now (body @ [CHR 0x0A]) r
               = Fatal (''error converting '' @ name (stats ! k) @ '' value ('' @ raws ! k
                          @ '') to float: '' @ err) r'
           \<and> children r' (Name (opts (metric (stats ! k))), [gpu])
               = children r (Name (opts (metric (stats ! k))), [gpu])
           \<and> length vs = k
           \<and> writes r' = writes r @ LastUpdatedSet (float64 L now)
                # map (\<lambda>(s, v). GaugeSet (Name (opts (metric s))) [(''gpu'', gpu)] v)
                    (zip (take k stats) vs)"
proof -
  define k where "k = (LEAST i. isl (ParseFloat L (raws ! i)))"
  from assms(3) obtain i0 where i0: "i0 < length stats" "isl (ParseFloat L (raws ! i0))" by blast
  from i0(2) have isl_k: "isl (ParseFloat L (raws ! k))" unfolding k_def by (rule LeastI)
  from i0(2) have "k \<le> i0" unfolding k_def by (rule Least_le)
  with i0(1) have k: "k < length stats" by simp
  have before: "\<not> isl (ParseFloat L (raws ! i))" if "i < k" for i
    using that unfolding k_def by (rule not_less_Least)
  from isl_k obtain err where err: "ParseFloat L (raws ! k) = Inl err"
    by (cases "ParseFloat L (raws ! k)") auto
  define vs where "vs = map (\<lambda>i. projr (ParseFloat L (raws ! i))) [0..<k]"
  have lvs: "length vs = k" by (simp add: vs_def)
  have ok: "\<forall>i<k. ParseFloat L (raws ! i) = Inr (vs ! i)"
  proof (intro allI impI)
    fix i assume i: "i < k"
    from before [OF i] have "ParseFloat L (raws ! i) = Inr (projr (ParseFloat L (raws ! i)))"
      by (cases "ParseFloat L (raws ! i)") auto
    with i show "ParseFloat L (raws ! i) = Inr (vs ! i)" by (simp add: vs_def)
  qed
  let ?r1 = "Gauge_Set (float64 L now) r"
  let ?r' = "set_gauges gpu (zip (take k stats) vs) ?r1"
  let ?msg = "''error converting '' @ name (stats ! k) @ '' value ('' @ raws ! k
                    @ '') to float: '' @ err"
  from assms(2) lvs k ok err
  have run: "scrapeSmi_stats L (gpu # raws) gpu 0 stats ?r1 = Fatal ?msg ?r'"
    by (intro scrapeSmi_stats_fails_at)
  from assms(1,2) run have a: "scrapeSmi_line L now (body @ [CHR 0x0A]) r = Fatal ?msg ?r'"
    by (simp add: scrapeSmi_line_eq)
  from assms(1) run have b: "scrapeSmi_line_part000 L now (body @ [CHR 0x0A]) r = Fatal ?msg ?r'"
    by (simp add: scrapeSmi_line_part000_eq)
  have ch: "children ?r1 = children r" by (simp add: Gauge_Set_def)
  from k have kl: "k \<le> length stats" by simp
  from set_gauges_take_children(2) [OF lvs kl, of gpu ?r1] k ch
  have c: "children ?r' (Name (opts (metric (stats ! k))), [gpu])
               = children r (Name (opts (metric (stats ! k))), [gpu])"
    by simp
  have w: "writes ?r' = writes r @ LastUpdatedSet (float64 L now)
                # map (\<lambda>(s, v). GaugeSet (Name (opts (metric s))) [(''gpu'', gpu)] v)
                    (zip (take k stats) vs)"
    by (simp add: set_gauges_writes Gauge_Set_def)
  show ?thesis
    by (rule exI [of _ k], rule exI [of _ err], rule exI [of _ ?r'], rule exI [of _ vs])
       (intro conjI k err a b c lvs w)
qed

theorem scrapeSmi_line_parse_failure_fatal_witness:
  \<open>(\<exists>r'. scrapeSmi_line example_lib 1500000000 ''0, 1024, 8192, abc, 3, 42, 120.5\<newline>''
           empty_registry
         = Fatal ''error converting utilization.gpu value (abc) to float: strconv.ParseFloat: parsing "abc": invalid syntax'' r'
       \<and> children r' (''nvidia_gpu_utilization_percent'', [''0'']) = None)\<close>
proof -
  let ?raws = "[''1024'', ''8192'', ''abc'', ''3'', ''42'', ''120.5'']"
  have len: "length ?raws = length stats" by (simp add: length_stats)
  have "isl (ParseFloat example_lib (?raws ! 2))" using ex_parse_abc by simp
  then have ex: "\<exists>i<length stats. isl (ParseFloat example_lib (?raws ! i))"
    by (intro exI [of _ 2]) (simp add: length_stats)
  from scrapeSmi_line_parse_failure_fatal [OF ex_split_abc len ex, of 1500000000 empty_registry]
  obtain k err r' where
    k: "k < length stats" and e: "ParseFloat example_lib (?raws ! k) = Inl err"
    and a: "scrapeSmi_line example_lib 1500000000
          (''0, 1024, 8192, abc, 3, 42, 120.5'' @ [CHR 0x0A]) empty_registry
        = Fatal (''error converting '' @ name (stats ! k) @ '' value ('' @ ?raws ! k
                          @ '') to float: '' @ err) r'"
    and c: "children r' (Name (opts (metric (stats ! k))), [''0''])
               = children empty_registry (Name (opts (metric (stats ! k))), [''0''])"
    by blast
  have ps: "\<forall>i<6. i \<noteq> 2 \<longrightarrow> \<not> isl (ParseFloat example_lib (?raws ! i))"
    by (simp add: all_less_6 example_lib_def ParseFloat_decimal_def is_digit_def digits_value_def)
  from e have "isl (ParseFloat example_lib (?raws ! k))" by simp
  with ps k have k2: "k = 2" by (auto simp: length_stats)
  from e k2 ex_parse_abc
  have err: \<open>err = ''strconv.ParseFloat: parsing "abc": invalid syntax''\<close> by simp
  from a c k2 err show ?thesis
    by (intro exI [of _ r']) (simp add: stats_def NewGaugeVec_def empty_registry_def)
qed

text \<open>
  Claim C4, as the code has it. \<open>lastUpdated.Set\<close> is the first statement after a
  successful read: whatever the line is, in both source files the registry that the
  processing of the line leaves behind holds the time of the read in \<open>lastUpdated\<close>,
  and the write of the timestamp comes before every write of a metric gauge of that line.
  This holds for a line that is then rejected as well.
\<close>

theorem lastUpdated_set_on_every_line:
  "lastUpdated (registry_of (scrapeSmi_line L now line0 r)) = float64 L now
   \<and> lastUpdated (registry_of (scrapeSmi_line_part000 L now line0 r)) = float64 L now
   \<and> (\<exists>es. writes (registry_of (scrapeSmi_line L now line0 r))
              = writes r @ LastUpdatedSet (float64 L now) # es
           \<and> list_all (\<lambda>e. event_labels e \<noteq> None) es)
   \<and> (\<exists>es. writes (registry_of (scrapeSmi_line_part000 L now line0 r))
              = writes r @ LastUpdatedSet (float64 L now) # es
           \<and> list_all (\<lambda>e. event_labels e \<noteq> None) es)"
proof -
  from scrapeSmi_line_cases [of L now line0 r]
  have a: "scrapeSmi_line L now line0 r = Panic SliceBoundsOutOfRange (Gauge_Set (float64 L now) r)
     \<or> (\<exists>msg. scrapeSmi_line L now line0 r = Fatal msg (Gauge_Set (float64 L now) r))
     \<or> (\<exists>data g. scrapeSmi_line L now line0 r
           = scrapeSmi_stats L data g 0 stats (Gauge_Set (float64 L now) r))" .
  from scrapeSmi_line_part000_cases [of L now line0 r]
  have "(\<exists>p. scrapeSmi_line_part000 L now line0 r = Panic p (Gauge_Set (float64 L now) r))
     \<or> (\<exists>data g. scrapeSmi_line_part000 L now line0 r
           = scrapeSmi_stats L data g 0 stats (Gauge_Set (float64 L now) r))"
    by auto
  then obtain p where b: "scrapeSmi_line_part000 L now line0 r = Panic p (Gauge_Set (float64 L now) r)
     \<or> (\<exists>msg. scrapeSmi_line_part000 L now line0 r = Fatal msg (Gauge_Set (float64 L now) r))
     \<or> (\<exists>data g. scrapeSmi_line_part000 L now line0 r
           = scrapeSmi_stats L data g 0 stats (Gauge_Set (float64 L now) r))"
    by auto
  from after_Gauge_Set [OF a] after_Gauge_Set [OF b] show ?thesis by simp
qed

text \<open>
  Claim C4 as stated fails: the line \<open>1, 512, 8192, 10\<close> fails the check of the number
  of fields, and the registry at the fatal exit holds the new timestamp.
\<close>

theorem lastUpdated_changes_on_failed_line:
  "scrapeSmi_line example_lib 1500000000 ''1, 512, 8192, 10\<newline>'' empty_registry
     = Fatal ''invalid nvidia-smi output: 1, 512, 8192, 10''
         (Gauge_Set 1500000000 empty_registry)
   \<and> lastUpdated (Gauge_Set 1500000000 empty_registry) \<noteq> lastUpdated empty_registry"
  by (simp add: scrapeSmi_line_def Let_def Split.simps length_stats example_lib_def
      Gauge_Set_def empty_registry_def)

text \<open>
  Claim C6 as stated fails: the label name of the gauge vectors is \<open>gpu\<close>, not
  \<open>device\<close>; a \<open>With\<close> call with the label \<open>device\<close> would panic.
\<close>

theorem gauges_not_labelled_device:
  "labelNames (metric (hd stats)) \<noteq> [''device'']
   \<and> With (metric (hd stats)) [(''device'', ''0'')] = None
   \<and> With (metric (hd stats)) [(''gpu'', ''0'')] = Some [''0'']"
  by (simp add: stats_def NewGaugeVec_def With_def)

text \<open>
  Claim C6, as the code has it. Every gauge vector of \<open>stats\<close> is created with the
  single label name \<open>gpu\<close>; both source files register the six vectors under that label
  and the gauge \<open>nvidia_last_updated_time\<close> without labels; and every write of a metric
  gauge made for a line is given exactly the label \<open>gpu\<close> with the first field of that
  line as its value.
\<close>

theorem gauges_labelled_gpu:
  "list_all (\<lambda>s. labelNames (metric s) = [''gpu'']) stats
   \<and> scrapeSmi_register [] =
       Inr [(''nvidia_last_updated_time'', []),
            (''nvidia_memory_used_megabytes'', [''gpu'']),
            (''nvidia_memory_total_megabytes'', [''gpu'']),
            (''nvidia_gpu_utilization_percent'', [''gpu'']),
            (''nvidia_memory_utilization_percent'', [''gpu'']),
            (''nvidia_temperature_celsius'', [''gpu'']),
            (''nvidia_power_draw_watts'', [''gpu''])]
   \<and> register_part000 [] =
       Inr [(''nvidia_memory_used_megabytes'', [''gpu'']),
            (''nvidia_memory_total_megabytes'', [''gpu'']),
            (''nvidia_gpu_utilization_percent'', [''gpu'']),
            (''nvidia_memory_utilization_percent'', [''gpu'']),
            (''nvidia_temperature_celsius'', [''gpu'']),
            (''nvidia_power_draw_watts'', [''gpu'']),
            (''nvidia_last_updated_time'', [])]
   \<and> (\<exists>es. writes (registry_of (scrapeSmi_line L now line0 r))
              = writes r @ LastUpdatedSet (float64 L now) # es
           \<and> list_all (\<lambda>e. event_labels e = Some [(''gpu'', device_of_line line0)]) es)
   \<and> (\<exists>es. writes (registry_of (scrapeSmi_line_part000 L now line0 r))
              = writes r @ LastUpdatedSet (float64 L now) # es
           \<and> list_all (\<lambda>e. event_labels e = Some [(''gpu'', device_of_line line0)]) es)"
proof -
  have a: "scrapeSmi_register [] =
       Inr [(''nvidia_last_updated_time'', []),
            (''nvidia_memory_used_megabytes'', [''gpu'']),
            (''nvidia_memory_total_megabytes'', [''gpu'']),
            (''nvidia_gpu_utilization_percent'', [''gpu'']),
            (''nvidia_memory_utilization_percent'', [''gpu'']),
            (''nvidia_temperature_celsius'', [''gpu'']),
            (''nvidia_power_draw_watts'', [''gpu''])]"
    by (simp add: scrapeSmi_register_def MustRegister_def Gauge_Desc_def GaugeVec_Desc_def
        lastUpdated_opts_def stats_def NewGaugeVec_def)
  have b: "register_part000 [] =
       Inr [(''nvidia_memory_used_megabytes'', [''gpu'']),
            (''nvidia_memory_total_megabytes'', [''gpu'']),
            (''nvidia_gpu_utilization_percent'', [''gpu'']),
            (''nvidia_memory_utilization_percent'', [''gpu'']),
            (''nvidia_temperature_celsius'', [''gpu'']),
            (''nvidia_power_draw_watts'', [''gpu'']),
            (''nvidia_last_updated_time'', [])]"
    by (simp add: register_part000_def MustRegister_def Gauge_Desc_def GaugeVec_Desc_def
        lastUpdated_opts_def stats_def NewGaugeVec_def)
  note c = line_outcome_props(3) [OF scrapeSmi_line_outcome [of L now line0 r]]
  note d = line_outcome_props(3) [OF scrapeSmi_line_part000_outcome [of L now line0 r]]
  show ?thesis by (intro conjI stats_labelNames a b c d)
qed

text \<open>
  Claim C7. Exactly the last byte of the line is dropped, and the rest is split by
  \<open>strings.Split\<close> on the two bytes \<open>", "\<close>: joining the fields with the
  separator gives the line back, no field contains the separator, and a list of fields
  none of which contains the separator is what splitting their join returns, so every
  occurrence of the separator splits, inside quotes too.
\<close>

theorem scrapeSmi_line_naive_split:
  "scrapeSmi_line L now (body @ [CHR 0x0A]) r =
     (if length (Split body '', '') \<noteq> length stats + 1
      then Fatal (''invalid nvidia-smi output: '' @ body) (Gauge_Set (float64 L now) r)
      else scrapeSmi_stats L (Split body '', '') (Split body '', '' ! 0) 0 stats
             (Gauge_Set (float64 L now) r))
   \<and> scrapeSmi_line_part000 L now (body @ [CHR 0x0A]) r =
       scrapeSmi_stats L (Split body '', '') (Split body '', '' ! 0) 0 stats
         (Gauge_Set (float64 L now) r)
   \<and> Join (Split body '', '') '', '' = body
   \<and> (\<forall>f \<in> set (Split body '', ''). \<not> (\<exists>u v. f = u @ '', '' @ v))
   \<and> (fs \<noteq> [] \<and> (\<forall>f \<in> set fs. \<not> (\<exists>u v. f = u @ '', '' @ v))
        \<longrightarrow> Split (Join fs '', '') '', '' = fs)"
proof -
  have a: "\<forall>f \<in> set (Split body '', ''). \<not> (\<exists>u v. f = u @ '', '' @ v)"
  proof
    fix f assume "f \<in> set (Split body '', '')"
    then have "Index f '', '' = None" by (intro Split_fields_no_sep) simp_all
    then show "\<not> (\<exists>u v. f = u @ '', '' @ v)" by (rule Index_None_iff [THEN iffD1])
  qed
  have b: "fs \<noteq> [] \<and> (\<forall>f \<in> set fs. \<not> (\<exists>u v. f = u @ '', '' @ v))
        \<longrightarrow> Split (Join fs '', '') '', '' = fs"
  proof
    assume h: "fs \<noteq> [] \<and> (\<forall>f \<in> set fs. \<not> (\<exists>u v. f = u @ '', '' @ v))"
    then have "\<forall>f \<in> set fs. Index f '', '' = None" by (simp add: Index_None_iff)
    then have "list_all (\<lambda>f. Index f '', '' = None) fs" by (simp only: list_all_iff)
    with h show "Split (Join fs '', '') '', '' = fs" by (intro Split_Join_comma_space) simp_all
  qed
  have c: "Join (Split body '', '') '', '' = body" by (intro Join_Split) simp
  from a b c show ?thesis
    by (simp only: scrapeSmi_line_eq scrapeSmi_line_part000_eq simp_thms)
qed

theorem scrapeSmi_line_naive_split_witness:
  "Split [CHR 0x22, CHR ''a'', CHR '','', CHR '' '', CHR ''b'', CHR 0x22, CHR '','', CHR '' '', CHR ''1'']
      '', ''
     = [[CHR 0x22, CHR ''a''], [CHR ''b'', CHR 0x22], ''1'']
   \<and> Join (Split ''0, 1024'' '', '') '', '' = ''0, 1024''"
proof -
  let ?fs = "[[CHR 0x22, CHR ''a''], [CHR ''b'', CHR 0x22], ''1'']"
  from scrapeSmi_line_naive_split [of example_lib 0 "''0, 1024''" empty_registry ?fs]
  have "Join (Split ''0, 1024'' '', '') '', '' = ''0, 1024''"
    and "?fs \<noteq> [] \<and> (\<forall>f \<in> set ?fs. \<not> (\<exists>u v. f = u @ '', '' @ v))
        \<longrightarrow> Split (Join ?fs '', '') '', '' = ?fs"
    by blast+
  with no_sep_quoted show ?thesis by simp
qed

text \<open>
  Claim C8 fails on \<open>src/unnamed/part_000\<close>: for the empty line (a line feed only)
  \<open>strings.Split\<close> returns one empty field, and \<open>data[1]\<close> is out of range. The loop
  body of \<open>nvidia_exporter.go\<close> rejects the same line by its check of the number of
  fields.
\<close>

theorem part000_empty_line_panics:
  "scrapeSmi_line_part000 L now [CHR 0x0A] r
     = Panic IndexOutOfRange (Gauge_Set (float64 L now) r)
   \<and> scrapeSmi_line L now [CHR 0x0A] r
     = Fatal ''invalid nvidia-smi output: '' (Gauge_Set (float64 L now) r)"
  by (simp add: scrapeSmi_line_part000_def scrapeSmi_line_def Let_def Split.simps stats_def)

text \<open>
  Claim C9. When the first \<open>k\<close> metric fields of a seven-field line parse and the
  next one does not (\<open>k > 0\<close>), the process ends fatally with the gauges of the first
  \<open>k\<close> metrics already set to the values of this line, and the gauges of the other
  metrics as they were.
\<close>

theorem scrapeSmi_line_partial_update:
  assumes "Split body '', '' = gpu # raws" and "length raws = length stats"
    and "0 < k" and "k < length stats" and "length vs = k"
    and "\<forall>i<k. ParseFloat L (raws ! i) = Inr (vs ! i)"
    and "ParseFloat L (raws ! k) = Inl err"
  shows "\<exists>msg r'. scrapeSmi_line L now (body @ [CHR 0x0A]) r = Fatal msg r'
           \<and> scrapeSmi_line_part000 L now (body @ [CHR 0x0A]) r = Fatal msg r'
           \<and> (\<forall>i<k. children r' (Name (opts (metric (stats ! i))), [gpu]) = Some (vs ! i))
           \<and> (\<forall>j. k \<le> j \<and> j < length stats \<longrightarrow>
                 children r' (Name (opts (metric (stats ! j))), [gpu])
                 = children r (Name (opts (metric (stats ! j))), [gpu]))"
proof -
  let ?r1 = "Gauge_Set (float64 L now) r"
  let ?r' = "set_gauges gpu (zip (take k stats) vs) ?r1"
  let ?msg = "''error converting '' @ name (stats ! k) @ '' value ('' @ raws ! k
                    @ '') to float: '' @ err"
  from assms have run: "scrapeSmi_stats L (gpu # raws) gpu 0 stats ?r1 = Fatal ?msg ?r'"
    by (intro scrapeSmi_stats_fails_at)
  from assms(1,2) run have a: "scrapeSmi_line L now (body @ [CHR 0x0A]) r = Fatal ?msg ?r'"
    by (simp add: scrapeSmi_line_eq)
  from assms(1) run have b: "scrapeSmi_line_part000 L now (body @ [CHR 0x0A]) r = Fatal ?msg ?r'"
    by (simp add: scrapeSmi_line_part000_eq)
  have ch: "children ?r1 = children r" by (simp add: Gauge_Set_def)
  from assms have kl: "k \<le> length stats" by simp
  from set_gauges_take_children [OF assms(5) kl, of gpu ?r1] ch
  have c: "\<forall>i<k. children ?r' (Name (opts (metric (stats ! i))), [gpu]) = Some (vs ! i)"
    and d: "\<forall>j. k \<le> j \<and> j < length stats \<longrightarrow>
                 children ?r' (Name (opts (metric (stats ! j))), [gpu])
                 = children r (Name (opts (metric (stats ! j))), [gpu])"
    by simp_all
  show ?thesis
    by (rule exI [of _ ?msg], rule exI [of _ ?r']) (intro conjI a b c d)
qed

theorem scrapeSmi_line_partial_update_witness:
  "\<exists>msg r'. scrapeSmi_line example_lib 1500000000 ''0, 1024, 8192, abc, 3, 42, 120.5\<newline>''
        earlier_registry = Fatal msg r'
     \<and> children r' (''nvidia_memory_used_megabytes'', [''0'']) = Some 1024
     \<and> children r' (''nvidia_gpu_utilization_percent'', [''0'']) = Some 10"
proof -
  let ?raws = "[''1024'', ''8192'', ''abc'', ''3'', ''42'', ''120.5'']"
  let ?vs = "[1024, 8192] :: rat list"
  have len: "length ?raws = length stats" by (simp add: length_stats)
  have k: "(0::nat) < 2" "2 < length stats" "length ?vs = 2" by (simp_all add: length_stats)
  have ok: "\<forall>i<2. ParseFloat example_lib (?raws ! i) = Inr (?vs ! i)"
    using ex_parse_1024_8192 by (simp add: less_Suc_eq numeral_2_eq_2)
  have bad: \<open>ParseFloat example_lib (?raws ! 2)
               = Inl ''strconv.ParseFloat: parsing "abc": invalid syntax''\<close>
    using ex_parse_abc by simp
  from scrapeSmi_line_partial_update [OF ex_split_abc len k ok bad, of 1500000000 earlier_registry]
  obtain msg r' where
    a: "scrapeSmi_line example_lib 1500000000
          (''0, 1024, 8192, abc, 3, 42, 120.5'' @ [CHR 0x0A]) earlier_registry = Fatal msg r'"
    and c: "\<forall>i<2. children r' (Name (opts (metric (stats ! i))), [''0'']) = Some (?vs ! i)"
    and d: "\<forall>j. 2 \<le> j \<and> j < length stats \<longrightarrow>
                 children r' (Name (opts (metric (stats ! j))), [''0''])
                 = children earlier_registry (Name (opts (metric (stats ! j))), [''0''])"
    by blast
  from c [rule_format, of 0]
  have c0: "children r' (''nvidia_memory_used_megabytes'', [''0'']) = Some 1024"
    by (simp add: stats_def NewGaugeVec_def)
  from d [rule_format, of 2]
  have d2: "children r' (''nvidia_gpu_utilization_percent'', [''0'']) = Some 10"
    by (simp add: stats_def NewGaugeVec_def earlier_registry_def)
  from a c0 d2 show ?thesis by (intro exI [of _ msg] exI [of _ r']) simp
qed

section \<open>The claims about the whole run\<close>

text \<open>
  Claim C10. For either source file: a gauge value that the registry holds is still there
  when the read loop ends, whatever the input; a device id that no line of the input names
  keeps the value it had; and a single line leaves every pair of another device id as it
  was, and deletes none.
\<close>

theorem gauges_never_deleted:
  fixes L :: "'f golib" and r :: "'f registry"
  assumes "body = scrapeSmi_line L \<or> body = scrapeSmi_line_part000 L"
  shows "(children r key \<noteq> None
            \<longrightarrow> children (registry_of (scrapeSmi_loop body clock k inp r)) key \<noteq> None)
       \<and> ((\<forall>l \<in> set (ReadBytes_lines inp). device_of_line l \<noteq> dev)
            \<longrightarrow> children (registry_of (scrapeSmi_loop body clock k inp r)) (n, [dev])
                = children r (n, [dev]))
       \<and> (children r key \<noteq> None \<longrightarrow> children (registry_of (body now line0 r)) key \<noteq> None)
       \<and> (snd key \<noteq> [device_of_line line0]
            \<longrightarrow> children (registry_of (body now line0 r)) key = children r key)"
proof -
  have out: "registry_of (body t l r0) = Gauge_Set (float64 L t) r0
     \<or> (\<exists>data. body t l r0
           = scrapeSmi_stats L data (device_of_line l) 0 stats (Gauge_Set (float64 L t) r0))"
    for t l and r0 :: "'f registry"
    using assms scrapeSmi_line_outcome [of L t l r0] scrapeSmi_line_part000_outcome [of L t l r0]
    by auto
  note kept = line_outcome_props(1) [OF out]
  note other = line_outcome_props(2) [OF out]
  have a: "children r key \<noteq> None
            \<longrightarrow> children (registry_of (scrapeSmi_loop body clock k inp r)) key \<noteq> None"
  proof
    assume r: "children r key \<noteq> None"
    show "children (registry_of (scrapeSmi_loop body clock k inp r)) key \<noteq> None"
      by (rule scrapeSmi_loop_invariant [where P = "\<lambda>r. children r key \<noteq> None"])
         (use kept r in simp_all)
  qed
  have b: "(\<forall>l \<in> set (ReadBytes_lines inp). device_of_line l \<noteq> dev)
            \<longrightarrow> children (registry_of (scrapeSmi_loop body clock k inp r)) (n, [dev])
                = children r (n, [dev])"
  proof
    assume h: "\<forall>l \<in> set (ReadBytes_lines inp). device_of_line l \<noteq> dev"
    show "children (registry_of (scrapeSmi_loop body clock k inp r)) (n, [dev])
            = children r (n, [dev])"
    proof (rule scrapeSmi_loop_invariant
        [where P = "\<lambda>r'. children r' (n, [dev]) = children r (n, [dev])"])
      fix t l and r0 :: "'f registry"
      assume l: "l \<in> set (ReadBytes_lines inp)"
        and p: "children r0 (n, [dev]) = children r (n, [dev])"
      from h l have "snd (n, [dev]) \<noteq> [device_of_line l]" by auto
      with other [of "(n, [dev])" l t r0] p
      show "children (registry_of (body t l r0)) (n, [dev]) = children r (n, [dev])" by simp
    qed simp
  qed
  from a b kept [of r key now line0] other [of key line0 now r] show ?thesis by simp
qed

theorem gauges_never_deleted_witness:
  "children (registry_of (scrapeSmi_loop (scrapeSmi_line example_lib) (\<lambda>k. 1500000000 + 5 * int k) 0
       ''0, 1024, 8192, 15, 3, 42, 120.5\<newline>0, 1030, 8192, 16, 3, 42, 121\<newline>''
       earlier_registry)) (''nvidia_power_draw_watts'', [''1'']) = Some 90
   \<and> children (registry_of (scrapeSmi_loop (scrapeSmi_line example_lib) (\<lambda>k. 1500000000 + 5 * int k) 0
       ''0, 1024, 8192, 15, 3, 42, 120.5\<newline>0, 1030, 8192, 16, 3, 42, 121\<newline>''
       earlier_registry)) (''nvidia_gpu_utilization_percent'', [''0'']) \<noteq> None"
proof -
  let ?inp = "''0, 1024, 8192, 15, 3, 42, 120.5\<newline>0, 1030, 8192, 16, 3, 42, 121\<newline>''"
  have lines: "\<forall>l \<in> set (ReadBytes_lines ?inp). device_of_line l \<noteq> ''1''"
    by (simp add: ReadBytes_lines.simps device_of_line_def Split.simps)
  have old: "children earlier_registry (''nvidia_gpu_utilization_percent'', [''0'']) \<noteq> None"
    "children earlier_registry (''nvidia_power_draw_watts'', [''1'']) = Some 90"
    by (simp_all add: earlier_registry_def)
  have body: "scrapeSmi_line example_lib = scrapeSmi_line example_lib
                \<or> scrapeSmi_line example_lib = scrapeSmi_line_part000 example_lib"
    by simp
  from gauges_never_deleted [OF body, of earlier_registry
      "(''nvidia_gpu_utilization_percent'', [''0''])" "\<lambda>k. 1500000000 + 5 * int k" 0 ?inp
      "''1''" "''nvidia_power_draw_watts''"]
    lines old
  show ?thesis by simp
qed

end
